theory Spec2Isabelle
  imports Complex_Main "HOL-Library.Char_ord" "HOL-Library.List_Lexorder" "HOL-Library.Log_Nat"
begin

section \<open>Data model of app3.py\<close>

text \<open>
  A naive local date and time as \<open>datetime.now()\<close> returns it.
\<close>

record datetime =
  year :: nat
  month :: nat
  day :: nat
  hour :: nat
  minute :: nat
  second :: nat
  microsecond :: nat

text \<open>
  One row of \<open>base_df\<close>: the ten numeric sensor columns named in \<open>features\<close> and the
  \<open>Timestamp\<close> column. The sensor values are floating-point numbers in the program; in
  the cause rules they are idealised as real numbers (no NaN, no rounding of
  \<open>Throttle_Position * factor\<close>).
\<close>

record Reading =
  Engine_Coolant_Temperature :: real
  Intake_Manifold_Abs_Pressure :: real
  Engine_RPM :: real
  Vehicle_Speed :: real
  Intake_Air_Temperature :: real
  AirFlow_Rate :: real
  Throttle_Position :: real
  Air_Temperature :: real
  Acc_Pedal_Pos_D :: real
  Acc_Pedal_Pos_E :: real
  Timestamp :: datetime

text \<open>
  The dictionary \<open>row_log\<close> appended to \<open>st.session_state.log_data\<close>: the keys of the
  row (\<open>row.to_dict()\<close>) and the six keys the loop adds.
\<close>

record row_log =
  reading :: Reading
  timestamp :: datetime
  vehicle_id :: string
  driver :: string
  prediction :: int
  probability :: real
  breakdown_cause :: string

datatype error = ValueError | IndexError | KeyError | OSError

text \<open>
  The pretrained model is an opaque artifact loaded from a file. It is a parameter here:
  \<open>predict\<close> gives the label of the single input row (\<open>model.predict(input_data)[0]\<close>) and
  \<open>predict_proba\<close> gives that row's list of class probabilities
  (\<open>model.predict_proba(input_data)[0]\<close>); either call may raise.
\<close>

record classifier =
  predict :: "real list \<Rightarrow> error + real"
  predict_proba :: "real list \<Rightarrow> error + real list"

text \<open>What the loop shows in \<open>placeholder\<close> for the current reading.\<close>

datatype panel = Breakdown_Warning "string list" | All_systems_normal

record view =
  shown_rpm :: real
  shown_coolant :: real
  shown_speed :: real
  shown_prediction :: string
  shown_delta :: real
  shown_panel :: panel

text \<open>
  The state the script runs on: the two keys of \<open>st.session_state\<close>, the file system
  (directories, and files as an association list from path to the rows written), the
  number of further rows the storage medium accepts, the number of clock readings taken so
  far and the content of the display placeholder.
\<close>

record world =
  running :: bool
  log_data :: "row_log list"
  dirs :: "string list"
  files :: "(string \<times> row_log list) list"
  free_rows :: nat
  ticks :: nat
  placeholder :: "view option"

section \<open>Configuration\<close>

definition vehicle_ids :: "string list" where
  "vehicle_ids = [''KA-01'', ''KA-02'', ''KA-03'', ''KA-04'', ''KA-05'']"

definition driver_mapping :: "string \<rightharpoonup> string" where
  "driver_mapping =
     [''KA-01'' \<mapsto> ''Rishab'', ''KA-02'' \<mapsto> ''Priya'', ''KA-03'' \<mapsto> ''Arjun'',
      ''KA-04'' \<mapsto> ''Sneha'', ''KA-05'' \<mapsto> ''Ravi'']"

definition features :: "Reading \<Rightarrow> real list" where
  "features row =
     [Engine_Coolant_Temperature row, Intake_Manifold_Abs_Pressure row, Engine_RPM row,
      Vehicle_Speed row, Intake_Air_Temperature row, AirFlow_Rate row, Throttle_Position row,
      Air_Temperature row, Acc_Pedal_Pos_D row, Acc_Pedal_Pos_E row]"

section \<open>Cause explanation logic\<close>

text \<open>
  The five tags, as the byte sequences of the source file (UTF-8): the degree sign is
  \<open>C2 B0\<close> and the rightwards arrow is \<open>E2 86 92\<close>.
\<close>

definition arrow :: string where
  "arrow = [CHR 0xE2, CHR 0x86, CHR 0x92]"

definition tag_overheating :: string where
  "tag_overheating = ''Overheating (Coolant Temp > 100'' @ [CHR 0xC2, CHR 0xB0] @ ''C)''"

definition tag_stall :: string where
  "tag_stall = ''RPM too low for throttle '' @ arrow @ '' possible stall''"

definition tag_manifold :: string where
  "tag_manifold = ''High manifold pressure '' @ arrow @ '' possible blockage''"

definition tag_intake :: string where
  "tag_intake = ''Abnormal intake air temperature''"

definition tag_pedal :: string where
  "tag_pedal = ''Pedal pressed but vehicle not moving '' @ arrow @ '' possible gear issue''"

definition factor :: real where
  "factor = 70"

text \<open>\<open>causes.append(t)\<close> under a condition.\<close>

definition append_if :: "bool \<Rightarrow> string \<Rightarrow> string list \<Rightarrow> string list" where
  "append_if b t causes = (if b then causes @ [t] else causes)"

definition get_causes :: "Reading \<Rightarrow> string list" where
  "get_causes row =
     (let causes = [];
          causes =
            (if Vehicle_Speed row > 1 then
               (let causes = append_if (Engine_Coolant_Temperature row > 100)
                               tag_overheating causes;
                    causes = append_if (Throttle_Position row < 70 \<and>
                                        Engine_RPM row < Throttle_Position row * factor)
                               tag_stall causes;
                    causes = append_if (Intake_Manifold_Abs_Pressure row > 220)
                               tag_manifold causes;
                    causes = append_if (Intake_Air_Temperature row > 120 \<or>
                                        Intake_Air_Temperature row < - 20)
                               tag_intake causes
                in causes)
             else causes);
          causes = append_if (Acc_Pedal_Pos_D row > 30 \<and> Vehicle_Speed row < 5)
                     tag_pedal causes
      in causes)"

text \<open>\<open>main_cause = causes[0] if causes else "None"\<close>\<close>

definition main_cause :: "string list \<Rightarrow> string" where
  "main_cause causes = (if causes \<noteq> [] then hd causes else ''None'')"

section \<open>Number conversions\<close>

text \<open>\<open>int(x)\<close> truncates towards zero.\<close>

definition py_int :: "real \<Rightarrow> int" where
  "py_int x = (if 0 \<le> x then \<lfloor>x\<rfloor> else \<lceil>x\<rceil>)"

text \<open>Rounding to the nearest integer, a tie going to the even neighbour.\<close>

definition round_half_even :: "real \<Rightarrow> int" where
  "round_half_even y =
     (let f = \<lfloor>y\<rfloor>; d = y - of_int f
      in if d < 1 / 2 then f else if 1 / 2 < d then f + 1 else if even f then f else f + 1)"

text \<open>
  The class-1 probability is a numpy \<open>float64\<close>, and \<open>round(prob, 4)\<close> on it is numpy's
  rounding: multiply by \<open>10 ** decimals\<close>, \<open>rint\<close>, divide by \<open>10 ** decimals\<close>, each
  operation in double precision. A finite double is modelled by the real number it
  denotes. \<open>expo x\<close> is the binary exponent of a positive \<open>x\<close> (\<open>2 powi expo x \<le> x <
  2 powi (expo x + 1)\<close>), \<open>ulp x\<close> the spacing of the doubles around \<open>x\<close> (53 significant
  bits, subnormal below \<open>2 powi - 1022\<close>), and \<open>fl x\<close> the double nearest to \<open>x\<close>, a tie
  going to the even significand. Overflow to infinity is not modelled; the values rounded
  here lie between 0 and 10000.
\<close>

definition expo :: "real \<Rightarrow> int" where
  "expo x = (if 1 \<le> x then bitlen \<lfloor>x\<rfloor> - 1 else - bitlen (\<lceil>1 / x\<rceil> - 1))"

definition ulp :: "real \<Rightarrow> real" where
  "ulp x = 2 powi (max (expo \<bar>x\<bar>) (- 1022) - 52)"

definition fl :: "real \<Rightarrow> real" where
  "fl x = (if x = 0 then 0 else sgn x * (of_int (round_half_even (\<bar>x\<bar> / ulp x)) * ulp x))"

definition rint :: "real \<Rightarrow> real" where
  "rint x = of_int (round_half_even x)"

definition np_round :: "real \<Rightarrow> nat \<Rightarrow> real" where
  "np_round x decimals = (let f = 10 ^ decimals in fl (rint (fl (x * f)) / f))"

section \<open>The monitoring loop\<close>

text \<open>
  The clock is a parameter: \<open>clock k\<close> is what the \<open>k\<close>-th call of \<open>datetime.now()\<close>
  returns. A raised exception ends the script run; the session state and the file system
  are then what they were when it was raised, so an error carries the world with it.
\<close>

type_synonym 'a result = "(error \<times> world) + 'a"

definition loop_body ::
  "classifier \<Rightarrow> (nat \<Rightarrow> datetime) \<Rightarrow> string \<Rightarrow> string \<Rightarrow> Reading \<Rightarrow> world \<Rightarrow> world result" where
  "loop_body model clock vehicle_selected driver_name row w =
     (let input_data = features row in
      case predict model input_data of
        Inl e \<Rightarrow> Inl (e, w)
      | Inr pred \<Rightarrow>
          (case predict_proba model input_data of
             Inl e \<Rightarrow> Inl (e, w)
           | Inr probs \<Rightarrow>
               if length probs \<le> 1 then Inl (IndexError, w)
               else
                 (let prob = probs ! 1;
                      causes = get_causes row;
                      main = main_cause causes;
                      entry = \<lparr>reading = row, timestamp = clock (ticks w),
                               vehicle_id = vehicle_selected, driver = driver_name,
                               prediction = py_int pred, probability = np_round prob 4,
                               breakdown_cause = main\<rparr>;
                      shown = \<lparr>shown_rpm = Engine_RPM row,
                               shown_coolant = Engine_Coolant_Temperature row,
                               shown_speed = Vehicle_Speed row,
                               shown_prediction = (if pred = 1 then ''Breakdown'' else ''Normal''),
                               shown_delta = prob * 100,
                               shown_panel = (if pred = 1 \<or> causes \<noteq> []
                                              then Breakdown_Warning causes
                                              else All_systems_normal)\<rparr>
                  in Inr (w\<lparr>ticks := Suc (ticks w),
                            log_data := log_data w @ [entry],
                            placeholder := Some shown\<rparr>))))"

fun simulate ::
  "classifier \<Rightarrow> (nat \<Rightarrow> datetime) \<Rightarrow> string \<Rightarrow> string \<Rightarrow> Reading list \<Rightarrow> world \<Rightarrow> world result" where
  "simulate model clock vehicle_selected driver_name [] w = Inr w"
| "simulate model clock vehicle_selected driver_name (row # rows) w =
     (if \<not> running w then Inr w
      else
        (case loop_body model clock vehicle_selected driver_name row w of
           Inl ew \<Rightarrow> Inl ew
         | Inr w' \<Rightarrow> simulate model clock vehicle_selected driver_name rows w'))"

section \<open>Log file names\<close>

text \<open>
  \<open>strftime("%Y-%m-%d_%H-%M-%S")\<close>: each field in decimal, zero-padded to four digits for
  the year and to two digits for the others. \<open>zero_pad k n\<close> is the last \<open>k\<close> decimal digits
  of \<open>n\<close>, which is the padded numeral when \<open>n < 10 ^ k\<close>.
\<close>

definition digit :: "nat \<Rightarrow> char" where
  "digit d = ''0123456789'' ! (d mod 10)"

fun zero_pad :: "nat \<Rightarrow> nat \<Rightarrow> string" where
  "zero_pad 0 n = []"
| "zero_pad (Suc k) n = zero_pad k (n div 10) @ [digit n]"

definition strftime :: "datetime \<Rightarrow> string" where
  "strftime t =
     zero_pad 4 (year t) @ ''-'' @ zero_pad 2 (month t) @ ''-'' @ zero_pad 2 (day t) @ ''_'' @
     zero_pad 2 (hour t) @ ''-'' @ zero_pad 2 (minute t) @ ''-'' @ zero_pad 2 (second t)"

text \<open>The values \<open>datetime.now()\<close> can return, with a four-digit year.\<close>

definition valid_datetime :: "datetime \<Rightarrow> bool" where
  "valid_datetime t =
     (1000 \<le> year t \<and> year t \<le> 9999 \<and> 1 \<le> month t \<and> month t \<le> 12 \<and>
      1 \<le> day t \<and> day t \<le> 31 \<and> hour t < 24 \<and> minute t < 60 \<and> second t < 60 \<and>
      microsecond t < 1000000)"

text \<open>The fields that the file name keeps: the time truncated to the second.\<close>

definition stamp :: "datetime \<Rightarrow> nat list" where
  "stamp t = [year t, month t, day t, hour t, minute t, second t]"

text \<open>\<open>os.path.join\<close> of two components (POSIX).\<close>

definition path_join :: "string \<Rightarrow> string \<Rightarrow> string" where
  "path_join a b =
     (if b \<noteq> [] \<and> hd b = CHR ''/'' then b
      else if a = [] \<or> last a = CHR ''/'' then a @ b
      else a @ ''/'' @ b)"

definition log_folder :: "string \<Rightarrow> string" where
  "log_folder vehicle_selected = ''logs/'' @ vehicle_selected"

definition log_name :: "datetime \<Rightarrow> string" where
  "log_name t = strftime t @ ''_log.csv''"

definition log_path :: "string \<Rightarrow> datetime \<Rightarrow> string" where
  "log_path vehicle_selected t = path_join (log_folder vehicle_selected) (log_name t)"

section \<open>File system\<close>

text \<open>
  \<open>os.makedirs(p, exist_ok=True)\<close> creates \<open>p\<close> and every missing ancestor.
  \<open>path_prefixes [] p\<close> lists the ancestors of \<open>p\<close> and \<open>p\<close> itself.
\<close>

fun path_prefixes :: "string \<Rightarrow> string \<Rightarrow> string list" where
  "path_prefixes seen [] = [seen]"
| "path_prefixes seen (c # cs) =
     (if c = CHR ''/'' \<and> seen \<noteq> [] then seen # path_prefixes (seen @ [c]) cs
      else path_prefixes (seen @ [c]) cs)"

definition makedirs :: "string \<Rightarrow> world \<Rightarrow> world" where
  "makedirs p w = w\<lparr>dirs := fold List.insert (path_prefixes [] p) (dirs w)\<rparr>"

definition path_exists :: "string \<Rightarrow> world \<Rightarrow> bool" where
  "path_exists p w = (p \<in> set (dirs w) \<or> p \<in> set (map fst (files w)))"

text \<open>The name of \<open>p\<close> inside \<open>folder\<close>, when \<open>p\<close> is directly inside it.\<close>

definition child_name :: "string \<Rightarrow> string \<Rightarrow> string option" where
  "child_name folder p =
     (let pre = folder @ ''/''; name = drop (length pre) p
      in if take (length pre) p = pre \<and> name \<noteq> [] \<and> CHR ''/'' \<notin> set name
         then Some name else None)"

definition listdir :: "string \<Rightarrow> world \<Rightarrow> string list" where
  "listdir folder w =
     remdups (List.map_filter (child_name folder) (dirs w @ map fst (files w)))"

fun store :: "string \<Rightarrow> 'a \<Rightarrow> (string \<times> 'a) list \<Rightarrow> (string \<times> 'a) list" where
  "store p v [] = [(p, v)]"
| "store p v ((q, u) # fs) = (if p = q then (p, v) # fs else (q, u) # store p v fs)"

definition read_file :: "string \<Rightarrow> world \<Rightarrow> row_log list option" where
  "read_file p w = map_of (files w) p"

text \<open>
  \<open>log_df.to_csv(log_path, index=False)\<close> opens the destination path itself and writes the
  rows to it in order. The medium accepts \<open>free_rows\<close> further rows: when the rows do not
  fit, the write raises with the rows written so far left in the file.
\<close>

definition to_csv :: "row_log list \<Rightarrow> string \<Rightarrow> world \<Rightarrow> world result" where
  "to_csv log_df p w =
     (if length log_df \<le> free_rows w
      then Inr (w\<lparr>files := store p log_df (files w),
                  free_rows := free_rows w - length log_df\<rparr>)
      else Inl (OSError, w\<lparr>files := store p (take (free_rows w) log_df) (files w),
                            free_rows := 0\<rparr>))"

section \<open>Live Monitoring page\<close>

text \<open>
  The block that both flushes share: build the frame from the buffer, read the clock, make
  the vehicle's folder, write the file.
\<close>

definition save_log :: "(nat \<Rightarrow> datetime) \<Rightarrow> string \<Rightarrow> world \<Rightarrow> world result" where
  "save_log clock vehicle_selected w =
     (let log_df = log_data w;
          today = clock (ticks w);
          w = w\<lparr>ticks := Suc (ticks w)\<rparr>;
          w = makedirs (log_folder vehicle_selected) w
      in to_csv log_df (log_path vehicle_selected today) w)"

text \<open>
  The part of the page below the buttons: the loop over \<open>base_df.head(15000)\<close> and the
  flush at the end of the stream.
\<close>

definition monitor ::
  "classifier \<Rightarrow> (nat \<Rightarrow> datetime) \<Rightarrow> Reading list \<Rightarrow> string \<Rightarrow> string \<Rightarrow> world \<Rightarrow> world result" where
  "monitor model clock base_df vehicle_selected driver_name w =
     (let df = take 15000 base_df in
      if running w then
        (case simulate model clock vehicle_selected driver_name df (w\<lparr>placeholder := None\<rparr>) of
           Inl ew \<Rightarrow> Inl ew
         | Inr w \<Rightarrow>
             if running w then
               (let w = w\<lparr>running := False\<rparr>
                in if log_data w \<noteq> [] then save_log clock vehicle_selected w else Inr w)
             else Inr w)
      else Inr w)"

text \<open>
  One run of the page. \<open>clicked\<close> says whether the button that the run shows (Start when not
  running, Stop when running) was pressed. \<open>st.rerun()\<close> runs the script again with no
  button pressed, which reaches \<open>monitor\<close> directly. The two keys of the session state
  always exist here; a new session starts with \<open>running = False\<close> and \<open>log_data = []\<close>.
\<close>

definition live_monitoring ::
  "classifier \<Rightarrow> (nat \<Rightarrow> datetime) \<Rightarrow> Reading list \<Rightarrow> string \<Rightarrow> string \<Rightarrow> bool \<Rightarrow> world \<Rightarrow>
     world result" where
  "live_monitoring model clock base_df vehicle_selected driver_name clicked w =
     (if \<not> running w then
        (if clicked then
           monitor model clock base_df vehicle_selected driver_name
             (w\<lparr>running := True, log_data := []\<rparr>)
         else monitor model clock base_df vehicle_selected driver_name w)
      else
        (if clicked then
           (let w = w\<lparr>running := False\<rparr>
            in case (if log_data w \<noteq> [] then save_log clock vehicle_selected w else Inr w) of
                 Inl ew \<Rightarrow> Inl ew
               | Inr w \<Rightarrow> monitor model clock base_df vehicle_selected driver_name w)
         else monitor model clock base_df vehicle_selected driver_name w))"

section \<open>Dashboard page: choice of the log to load\<close>

text \<open>
  \<open>sorted(os.listdir(folder), reverse=True)\<close> and its first element. Strings compare
  lexicographically by character code.
\<close>

definition latest_file :: "string \<Rightarrow> world \<Rightarrow> string + string" where
  "latest_file vehicle_selected w =
     (let folder = log_folder vehicle_selected in
      if \<not> path_exists folder w then Inl ''No logs found for this vehicle.''
      else
        (let files = rev (sort (listdir folder w)) in
         if files \<noteq> [] then Inr (path_join folder (hd files))
         else Inl ''No log files found.''))"

section \<open>What a classifier does on a reading\<close>

text \<open>
  The exception that lines 152 and 153 raise on a reading, if any: from \<open>predict\<close>, from
  \<open>predict_proba\<close>, or from the index \<open>[1]\<close> into the class probabilities.
\<close>

definition classifier_raises :: "classifier \<Rightarrow> Reading \<Rightarrow> error option" where
  "classifier_raises model row =
     (case predict model (features row) of
        Inl e \<Rightarrow> Some e
      | Inr pred \<Rightarrow>
          (case predict_proba model (features row) of
             Inl e \<Rightarrow> Some e
           | Inr probs \<Rightarrow> if length probs \<le> 1 then Some IndexError else None))"

text \<open>
  The interface of the classifier: on this reading both calls return, the label is 0 or 1
  and the class-1 probability lies between 0 and 1.
\<close>

definition classifier_ok :: "classifier \<Rightarrow> Reading \<Rightarrow> bool" where
  "classifier_ok model row =
     (case predict model (features row) of
        Inl e \<Rightarrow> False
      | Inr pred \<Rightarrow>
          (pred = 0 \<or> pred = 1) \<and>
          (case predict_proba model (features row) of
             Inl e \<Rightarrow> False
           | Inr probs \<Rightarrow> 1 < length probs \<and> 0 \<le> probs ! 1 \<and> probs ! 1 \<le> 1))"

section \<open>Sample inputs\<close>

definition noon :: datetime where
  "noon = \<lparr>year = 2024, month = 5, day = 17, hour = 12, minute = 0, second = 0,
           microsecond = 0\<rparr>"

text \<open>The reading of the scenario: moving at 60 with a coolant temperature of 105.\<close>

definition hot_reading :: Reading where
  "hot_reading =
     \<lparr>Engine_Coolant_Temperature = 105, Intake_Manifold_Abs_Pressure = 200,
      Engine_RPM = 1000, Vehicle_Speed = 60, Intake_Air_Temperature = 30, AirFlow_Rate = 10,
      Throttle_Position = 50, Air_Temperature = 25, Acc_Pedal_Pos_D = 0,
      Acc_Pedal_Pos_E = 0, Timestamp = noon\<rparr>"

definition idle_reading :: Reading where
  "idle_reading =
     \<lparr>Engine_Coolant_Temperature = 80, Intake_Manifold_Abs_Pressure = 100,
      Engine_RPM = 800, Vehicle_Speed = 0, Intake_Air_Temperature = 30, AirFlow_Rate = 5,
      Throttle_Position = 10, Air_Temperature = 25, Acc_Pedal_Pos_D = 10,
      Acc_Pedal_Pos_E = 10, Timestamp = noon\<rparr>"

text \<open>A classifier that answers on every reading.\<close>

definition steady_model :: classifier where
  "steady_model =
     \<lparr>predict = (\<lambda>xs. Inr (if 100 < hd xs then 1 else 0)),
      predict_proba = (\<lambda>xs. Inr (if 100 < hd xs then [1 / 8, 7 / 8] else [7 / 8, 1 / 8]))\<rparr>"


text \<open>A clock that advances by one second at each reading, from noon.\<close>

definition second_clock :: "nat \<Rightarrow> datetime" where
  "second_clock k = noon\<lparr>second := k mod 60, minute := k div 60 mod 60\<rparr>"

definition empty_world :: world where
  "empty_world =
     \<lparr>running = False, log_data = [], dirs = [''logs''], files = [], free_rows = 1000,
      ticks = 0, placeholder = None\<rparr>"

definition sample_entry :: row_log where
  "sample_entry =
     \<lparr>reading = idle_reading, timestamp = noon, vehicle_id = ''KA-01'', driver = ''Rishab'',
      prediction = 0, probability = 1 / 8, breakdown_cause = ''None''\<rparr>"

text \<open>One hour after \<open>noon\<close>, and half a second after \<open>noon\<close>.\<close>

definition one_pm :: datetime where
  "one_pm = noon\<lparr>hour := 13\<rparr>"

definition half_past :: datetime where
  "half_past = noon\<lparr>microsecond := 500000\<rparr>"

text \<open>A world in which two logs of vehicle KA-01 have been saved.\<close>

definition two_logs :: world where
  "two_logs =
     empty_world\<lparr>dirs := [''logs'', ''logs/KA-01''],
                 files := [(''logs/KA-01/2024-05-17_13-00-00_log.csv'', [sample_entry]),
                           (''logs/KA-01/2024-05-17_12-00-00_log.csv'', [sample_entry, sample_entry])]\<rparr>"

text \<open>
  A running session with one record already in the buffer, as a rerun of the script
  finds it.
\<close>

definition stale_world :: world where
  "stale_world = empty_world\<lparr>running := True, log_data := [sample_entry]\<rparr>"

text \<open>
  The double nearest to 0.12345, the double nearest to 0.1234 and the double
  \<open>1 - 0.12345\<close>.
\<close>

definition raw_12345 :: real where
  "raw_12345 = 2223877495995551 / 18014398509481984"

definition stored_1234 :: real where
  "stored_1234 = 8891907104280307 / 72057594037927936"

definition rest_12345 :: real where
  "rest_12345 = 493453781671451 / 562949953421312"

text \<open>A classifier whose class-1 probability is the double nearest to 0.12345.\<close>

definition borderline_model :: classifier where
  "borderline_model =
     \<lparr>predict = (\<lambda>xs. Inr 0), predict_proba = (\<lambda>xs. Inr [rest_12345, raw_12345])\<rparr>"

text \<open>A model whose \<open>predict\<close> returns the fractional value 1.5.\<close>

definition regressor_model :: classifier where
  "regressor_model =
     \<lparr>predict = (\<lambda>xs. Inr (3 / 2)), predict_proba = (\<lambda>xs. Inr [rest_12345, raw_12345])\<rparr>"

text \<open>Two buffered records, with room for both and with room for one only.\<close>

definition roomy_disk :: world where
  "roomy_disk = empty_world\<lparr>log_data := [sample_entry, sample_entry]\<rparr>"

definition full_disk :: world where
  "full_disk = empty_world\<lparr>log_data := [sample_entry, sample_entry], free_rows := 1\<rparr>"

section \<open>Rounding in double precision\<close>

lemma round_half_even_error: "\<bar>of_int (round_half_even y) - y\<bar> \<le> 1 / 2"
  unfolding round_half_even_def Let_def by (auto; linarith)

lemma bitlen_pos: "0 < a \<Longrightarrow> 1 \<le> bitlen a"
  by (simp add: bitlen_alt_def)

lemma expo_bounds:
  assumes "0 < x"
  shows "2 powi expo x \<le> x \<and> x < 2 powi (expo x + 1)"
proof (cases "1 \<le> x")
  case True
  define a where "a = \<lfloor>x\<rfloor>"
  have a: "0 < a" using True by (simp add: a_def)
  have L: "1 \<le> bitlen a" using a by (rule bitlen_pos)
  have e: "expo x = bitlen a - 1" using True by (simp add: expo_def a_def)
  from bitlen_bounds [OF a]
  have lo: "2 ^ nat (bitlen a - 1) \<le> a" and hi: "a + 1 \<le> 2 ^ nat (bitlen a)" by simp_all
  have "(2::real) powi (bitlen a - 1) = 2 ^ nat (bitlen a - 1)"
    using L by (simp add: power_int_nonneg_exp)
  also have "\<dots> = of_int (2 ^ nat (bitlen a - 1))" by simp
  also have "\<dots> \<le> of_int a" using lo by (simp only: of_int_le_iff)
  also have "\<dots> \<le> x" by (simp add: a_def)
  finally have lower: "2 powi expo x \<le> x" by (simp add: e)
  have "x < of_int a + 1" by (simp add: a_def)
  also have "\<dots> = of_int (a + 1)" by simp
  also have "\<dots> \<le> of_int (2 ^ nat (bitlen a))" using hi by (simp only: of_int_le_iff)
  also have "\<dots> = (2::real) powi (bitlen a)"
    using L by (simp add: power_int_nonneg_exp)
  finally have "x < 2 powi (expo x + 1)" by (simp add: e)
  with lower show ?thesis by simp
next
  case False
  then have x1: "x < 1" by simp
  define c where "c = \<lceil>1 / x\<rceil>"
  define a where "a = c - 1"
  have "1 < 1 / x" using assms x1 by simp
  then have "1 < c" unfolding c_def by (simp add: less_ceiling_iff)
  then have a: "0 < a" by (simp add: a_def)
  have L: "1 \<le> bitlen a" using a by (rule bitlen_pos)
  have e: "expo x = - bitlen a" using False by (simp add: expo_def a_def c_def)
  from bitlen_bounds [OF a]
  have lo: "2 ^ nat (bitlen a - 1) \<le> a" and hi: "a + 1 \<le> 2 ^ nat (bitlen a)" by simp_all
  have "1 / x \<le> of_int c" by (simp add: c_def)
  also have "\<dots> = of_int (a + 1)" by (simp add: a_def)
  also have "\<dots> \<le> of_int (2 ^ nat (bitlen a))" using hi by (simp only: of_int_le_iff)
  also have "\<dots> = (2::real) ^ nat (bitlen a)" by simp
  finally have "1 / x \<le> 2 ^ nat (bitlen a)" .
  then have "1 \<le> 2 ^ nat (bitlen a) * x"
    using assms by (simp add: field_simps)
  then have "1 / 2 ^ nat (bitlen a) \<le> x"
    by (simp add: field_simps)
  moreover have "(2::real) powi (- bitlen a) = 1 / 2 ^ nat (bitlen a)"
    using L by (simp add: power_int_minus_divide power_int_nonneg_exp)
  ultimately have lower: "2 powi expo x \<le> x" by (simp add: e)
  have "(2::real) ^ nat (bitlen a - 1) = of_int (2 ^ nat (bitlen a - 1))" by simp
  also have "\<dots> \<le> of_int a" using lo by (simp only: of_int_le_iff)
  also have "\<dots> = of_int c - 1" by (simp add: a_def)
  also have "\<dots> < 1 / x" unfolding c_def by linarith
  finally have "2 ^ nat (bitlen a - 1) < 1 / x" .
  then have "2 ^ nat (bitlen a - 1) * x < 1"
    using assms by (simp add: field_simps)
  then have "x < 1 / 2 ^ nat (bitlen a - 1)"
    by (simp add: field_simps)
  moreover have "(2::real) powi (- bitlen a + 1) = 1 / 2 ^ nat (bitlen a - 1)"
  proof -
    have "- bitlen a + 1 = - (bitlen a - 1)" by simp
    then have "(2::real) powi (- bitlen a + 1) = 1 / 2 powi (bitlen a - 1)"
      by (simp only: power_int_minus_divide)
    then show ?thesis using L by (simp add: power_int_nonneg_exp)
  qed
  ultimately have "x < 2 powi (expo x + 1)" by (simp add: e)
  with lower show ?thesis by simp
qed

lemma expo_less:
  assumes "0 < x" and "x < 2 powi n"
  shows "expo x < n"
proof (rule ccontr)
  assume "\<not> expo x < n"
  then have "n \<le> expo x" by simp
  then have "(2::real) powi n \<le> 2 powi expo x"
    by (intro power_int_increasing) simp_all
  with expo_bounds [OF assms(1)] assms(2) show False by simp
qed

lemma ulp_pos: "0 < ulp x"
  by (simp add: ulp_def)

lemma ulp_le:
  assumes "x \<noteq> 0" and "\<bar>x\<bar> < 2 powi n" and "- 1022 < n"
  shows "ulp x \<le> 2 powi (n - 53)"
proof -
  have "expo \<bar>x\<bar> < n" using assms by (intro expo_less) simp_all
  then have "max (expo \<bar>x\<bar>) (- 1022) - 52 \<le> n - 53" using assms(3) by simp
  then show ?thesis
    unfolding ulp_def by (intro power_int_increasing) simp_all
qed

lemma fl_error: "\<bar>fl x - x\<bar> \<le> ulp x / 2"
proof (cases "x = 0")
  case True
  then show ?thesis using ulp_pos [of x] by (simp add: fl_def)
next
  case False
  define u where "u = ulp x"
  define k where "k = round_half_even (\<bar>x\<bar> / u)"
  have u: "0 < u" by (simp add: u_def ulp_pos)
  have "\<bar>of_int k - \<bar>x\<bar> / u\<bar> \<le> 1 / 2"
    unfolding k_def by (rule round_half_even_error)
  then have "\<bar>of_int k - \<bar>x\<bar> / u\<bar> * u \<le> 1 / 2 * u"
    using u by (intro mult_right_mono) simp_all
  then have "\<bar>(of_int k - \<bar>x\<bar> / u) * u\<bar> \<le> u / 2"
    using u by (simp add: abs_mult)
  then have mag: "\<bar>of_int k * u - \<bar>x\<bar>\<bar> \<le> u / 2"
    using u by (simp add: left_diff_distrib)
  have "fl x = sgn x * (of_int k * u)"
    using False by (simp add: fl_def k_def u_def)
  moreover have "x = sgn x * \<bar>x\<bar>"
    by (simp only: sgn_mult_abs)
  ultimately have "fl x - x = sgn x * (of_int k * u) - sgn x * \<bar>x\<bar>"
    by simp
  then have "fl x - x = sgn x * (of_int k * u - \<bar>x\<bar>)"
    by (simp only: right_diff_distrib)
  then have "\<bar>fl x - x\<bar> = \<bar>sgn x\<bar> * \<bar>of_int k * u - \<bar>x\<bar>\<bar>"
    by (simp only: abs_mult)
  then have "\<bar>fl x - x\<bar> = \<bar>of_int k * u - \<bar>x\<bar>\<bar>"
    using False by (simp add: abs_sgn_eq)
  with mag show ?thesis by (simp add: u_def)
qed


lemma fl_nonneg: "0 \<le> x \<Longrightarrow> 0 \<le> fl x"
proof (cases "x = 0")
  case True
  then show ?thesis by (simp add: fl_def)
next
  case False
  assume "0 \<le> x"
  then have pos: "0 < x" using False by simp
  have "0 \<le> \<bar>x\<bar> / ulp x" using ulp_pos [of x] by simp
  then have "0 \<le> \<lfloor>\<bar>x\<bar> / ulp x\<rfloor>" by simp
  then have "0 \<le> round_half_even (\<bar>x\<bar> / ulp x)"
    by (simp add: round_half_even_def Let_def)
  then show ?thesis
    using pos ulp_pos [of x] by (simp add: fl_def)
qed

lemma round_half_even_le:
  assumes "y \<le> of_int n"
  shows "round_half_even y \<le> n"
proof (cases "\<lfloor>y\<rfloor> = n")
  case True
  then have "y - of_int \<lfloor>y\<rfloor> \<le> 0" using assms by simp
  then show ?thesis using True by (simp add: round_half_even_def Let_def)
next
  case False
  have "\<lfloor>y\<rfloor> \<le> n" using assms by (simp add: floor_le_iff)
  then have "\<lfloor>y\<rfloor> + 1 \<le> n" using False by simp
  then show ?thesis by (simp add: round_half_even_def Let_def)
qed

lemma fl_le:
  assumes "0 < x" and "x \<le> of_int B" and "ulp x = 2 powi m" and "m \<le> 0"
  shows "fl x \<le> of_int B"
proof -
  define u where "u = ulp x"
  have u: "0 < u" by (simp add: u_def ulp_pos)
  have inv: "1 / u = 2 ^ nat (- m)"
    using assms(3,4) by (simp add: u_def power_int_def field_simps)
  have "\<bar>x\<bar> / u = x * (1 / u)" using assms(1) by simp
  also have "\<dots> \<le> of_int B * (1 / u)"
    using assms(2) u by (intro mult_right_mono) simp_all
  also have "\<dots> = of_int (B * 2 ^ nat (- m))" by (simp add: inv)
  finally have "round_half_even (\<bar>x\<bar> / u) \<le> B * 2 ^ nat (- m)"
    by (rule round_half_even_le)
  then have "(of_int (round_half_even (\<bar>x\<bar> / u)) :: real) \<le> of_int (B * 2 ^ nat (- m))"
    by (simp only: of_int_le_iff)
  then have "of_int (round_half_even (\<bar>x\<bar> / u)) * u \<le> of_int (B * 2 ^ nat (- m)) * u"
    using u by (intro mult_right_mono) simp_all
  also have "of_int (B * 2 ^ nat (- m)) * u = of_int B * ((1 / u) * u)"
    by (simp add: inv)
  also have "\<dots> = of_int B" using u by simp
  finally show ?thesis
    using assms(1) by (simp add: fl_def u_def)
qed


lemma fl_range_error:
  assumes "0 \<le> x" and "x \<le> of_int B" and "x < 2 powi n" and "- 1022 < n" and "n \<le> 53"
  shows "0 \<le> fl x \<and> fl x \<le> of_int B \<and> \<bar>fl x - x\<bar> \<le> 2 powi (n - 54)"
proof (cases "x = 0")
  case True
  then show ?thesis using assms(2) by (simp add: fl_def)
next
  case False
  then have pos: "0 < x" using assms(1) by simp
  define m where "m = max (expo \<bar>x\<bar>) (- 1022) - 52"
  have u: "ulp x = 2 powi m" by (simp add: ulp_def m_def)
  have "expo \<bar>x\<bar> < n" using pos assms(3) by (intro expo_less) simp_all
  then have m: "m \<le> n - 53" using assms(4) by (simp add: m_def)
  then have m0: "m \<le> 0" using assms(5) by simp
  have "ulp x / 2 \<le> 2 powi (n - 53) / 2"
    using ulp_le [OF False _ assms(4)] pos assms(3) by simp
  also have "\<dots> = 2 powi (n - 54)"
  proof -
    have "(2::real) powi ((n - 54) + 1) = 2 powi (n - 54) * 2"
      by (rule power_int_add_1) simp
    moreover have "(n - 54) + 1 = n - 53" by simp
    ultimately have "(2::real) powi (n - 53) = 2 powi (n - 54) * 2"
      by simp
    then show ?thesis by simp
  qed
  finally have "\<bar>fl x - x\<bar> \<le> 2 powi (n - 54)"
    using fl_error [of x] by simp
  then show ?thesis
    using fl_nonneg [OF assms(1)] fl_le [OF pos assms(2) u m0] by simp
qed

lemma np_round_4_steps:
  assumes "0 \<le> x" and "x \<le> 1"
  shows "\<exists>k::int. np_round x 4 = fl (of_int k / 10000) \<and> 0 \<le> k \<and> k \<le> 10000 \<and>
           \<bar>of_int k - fl (x * 10000)\<bar> \<le> 1 / 2 \<and>
           \<bar>fl (x * 10000) - x * 10000\<bar> \<le> 2 powi (- 40) \<and>
           0 \<le> np_round x 4 \<and> np_round x 4 \<le> 1 \<and>
           \<bar>np_round x 4 - of_int k / 10000\<bar> \<le> 2 powi (- 53)"
proof -
  define y where "y = x * 10000"
  define k where "k = round_half_even (fl y)"
  define z :: real where "z = of_int k / 10000"
  have y: "0 \<le> y" "y \<le> of_int 10000" "y < 2 powi 14"
    using assms by (simp_all add: y_def)
  from fl_range_error [OF y]
  have fy: "0 \<le> fl y" "fl y \<le> 10000" "\<bar>fl y - y\<bar> \<le> 2 powi (- 40)"
    by simp_all
  have k: "0 \<le> k" "k \<le> 10000"
  proof -
    have "0 \<le> \<lfloor>fl y\<rfloor>" using fy(1) by simp
    then show "0 \<le> k" by (simp add: k_def round_half_even_def Let_def)
    have "fl y \<le> of_int 10000" using fy(2) by simp
    then show "k \<le> 10000" unfolding k_def by (rule round_half_even_le)
  qed
  have kerr: "\<bar>of_int k - fl y\<bar> \<le> 1 / 2"
    unfolding k_def by (rule round_half_even_error)
  have z: "0 \<le> z" "z \<le> of_int 1" "z < 2 powi 1"
    using k by (simp_all add: z_def)
  from fl_range_error [OF z]
  have fz: "0 \<le> fl z" "fl z \<le> 1" "\<bar>fl z - z\<bar> \<le> 2 powi (- 53)"
    by simp_all
  have "np_round x 4 = fl z"
    by (simp add: np_round_def rint_def Let_def z_def k_def y_def)
  then show ?thesis
    using k kerr fy(3) fz unfolding z_def y_def by (intro exI [of _ k]) simp
qed

lemma np_round_unit:
  assumes "0 \<le> x" and "x \<le> 1"
  shows "0 \<le> np_round x 4 \<and> np_round x 4 \<le> 1"
  using np_round_4_steps [OF assms] by blast

lemma np_round_4_error:
  assumes "0 \<le> x" and "x \<le> 1"
  shows "\<bar>np_round x 4 - x\<bar> \<le> 5 / 100000 + 2 powi (- 52)"
proof -
  from np_round_4_steps [OF assms] obtain k :: int
    where a: "\<bar>of_int k - fl (x * 10000)\<bar> \<le> 1 / 2"
      and b: "\<bar>fl (x * 10000) - x * 10000\<bar> \<le> 2 powi (- 40)"
      and c: "\<bar>np_round x 4 - of_int k / 10000\<bar> \<le> 2 powi (- 53)"
    by blast
  have p40: "(2::real) powi (- 40) = 1 / 2 ^ 40" and p53: "(2::real) powi (- 53) = 1 / 2 ^ 53"
    and p52: "(2::real) powi (- 52) = 1 / 2 ^ 52"
    by (simp_all add: power_int_minus_divide)
  have "\<bar>of_int k - x * 10000\<bar> \<le> 1 / 2 + 1 / 2 ^ 40"
    using a b unfolding p40 by linarith
  then have "\<bar>of_int k / 10000 - x\<bar> \<le> (1 / 2 + 1 / 2 ^ 40) / 10000"
    by (simp add: field_simps abs_le_iff)
  then have "\<bar>np_round x 4 - x\<bar> \<le> 1 / 2 ^ 53 + (1 / 2 + 1 / 2 ^ 40) / 10000"
    using c unfolding p53 by linarith
  also have "\<dots> \<le> 5 / 100000 + 1 / 2 ^ 52"
    by simp
  finally show ?thesis by (simp only: p52)
qed

lemma np_round_4_grid:
  "\<exists>k::int. np_round x 4 = fl (of_int k / 10000) \<and> \<bar>of_int k - fl (x * 10000)\<bar> \<le> 1 / 2"
proof -
  have "np_round x 4 = fl (of_int (round_half_even (fl (x * 10000))) / 10000)"
    by (simp add: np_round_def rint_def Let_def)
  then show ?thesis
    using round_half_even_error [of "fl (x * 10000)"] by blast
qed

lemma np_round_tie: "np_round raw_12345 4 = stored_1234"
  unfolding raw_12345_def stored_1234_def by code_simp

lemma py_int_truncates:
  "\<bar>of_int (py_int x)\<bar> \<le> \<bar>x\<bar> \<and> \<bar>x - of_int (py_int x)\<bar> < 1"
  unfolding py_int_def by (auto; linarith)

section \<open>One iteration of the loop\<close>


lemma loop_body_returns:
  assumes "classifier_raises model row = None"
  shows "\<exists>w' entry. loop_body model clock v d row w = Inr w' \<and>
           log_data w' = log_data w @ [entry] \<and> reading entry = row \<and>
           running w' = running w \<and> dirs w' = dirs w \<and> files w' = files w \<and>
           free_rows w' = free_rows w \<and> ticks w' = Suc (ticks w)"
  using assms
  by (auto simp: classifier_raises_def loop_body_def Let_def split: sum.splits if_splits)

lemma classifier_ok_returns: "classifier_ok model row \<Longrightarrow> classifier_raises model row = None"
  by (auto simp: classifier_ok_def classifier_raises_def split: sum.splits)

lemma loop_body_in_range:
  assumes "classifier_ok model row"
    and "loop_body model clock v d row w = Inr w'"
  shows "\<exists>entry. log_data w' = log_data w @ [entry] \<and>
           0 \<le> probability entry \<and> probability entry \<le> 1 \<and>
           (prediction entry = 0 \<or> prediction entry = 1)"
  using assms
  by (auto simp: classifier_ok_def loop_body_def Let_def py_int_def np_round_unit
           split: sum.splits if_splits)

lemma loop_body_entry:
  assumes "loop_body model clock v d row w = Inr w'"
  shows "\<exists>pred probs.
           predict model (features row) = Inr pred \<and>
           predict_proba model (features row) = Inr probs \<and> 1 < length probs \<and>
           log_data w' = log_data w @
             [\<lparr>reading = row, timestamp = clock (ticks w), vehicle_id = v, driver = d,
               prediction = py_int pred, probability = np_round (probs ! 1) 4,
               breakdown_cause = main_cause (get_causes row)\<rparr>]"
  using assms
  by (auto simp: loop_body_def Let_def split: sum.splits if_splits)

section \<open>The loop over the readings\<close>

lemma simulate_appends:
  assumes "running w" and "\<forall>row \<in> set rows. classifier_ok model row"
  shows "\<exists>w' entries. simulate model clock v d rows w = Inr w' \<and>
           log_data w' = log_data w @ entries \<and> map reading entries = rows \<and>
           (\<forall>e \<in> set entries. 0 \<le> probability e \<and> probability e \<le> 1 \<and>
              (prediction e = 0 \<or> prediction e = 1)) \<and>
           running w' \<and> dirs w' = dirs w \<and> files w' = files w \<and>
           free_rows w' = free_rows w \<and> ticks w' = ticks w + length rows"
  using assms
proof (induction rows arbitrary: w)
  case Nil
  then show ?case by simp
next
  case (Cons row rows)
  from Cons.prems have ok: "classifier_ok model row" by simp
  from loop_body_returns [OF classifier_ok_returns [OF ok], of clock v d w]
  obtain w1 entry where step: "loop_body model clock v d row w = Inr w1"
    and w1: "log_data w1 = log_data w @ [entry]" "reading entry = row" "running w1 = running w"
      "dirs w1 = dirs w" "files w1 = files w" "free_rows w1 = free_rows w"
      "ticks w1 = Suc (ticks w)"
    by blast
  from loop_body_in_range [OF ok step] w1(1)
  have entry: "0 \<le> probability entry" "probability entry \<le> 1"
    "prediction entry = 0 \<or> prediction entry = 1"
    by auto
  have "running w1" using w1 Cons.prems by simp
  moreover have "\<forall>r \<in> set rows. classifier_ok model r"
    using Cons.prems by simp
  ultimately obtain w' entries where rest: "simulate model clock v d rows w1 = Inr w'"
    and w': "log_data w' = log_data w1 @ entries" "map reading entries = rows"
      "\<forall>e \<in> set entries. 0 \<le> probability e \<and> probability e \<le> 1 \<and>
         (prediction e = 0 \<or> prediction e = 1)"
      "running w'" "dirs w' = dirs w1" "files w' = files w1" "free_rows w' = free_rows w1"
      "ticks w' = ticks w1 + length rows"
    using Cons.IH [of w1] by blast
  have "simulate model clock v d (row # rows) w = Inr w'"
    using Cons.prems step rest by simp
  moreover have "log_data w' = log_data w @ (entry # entries)"
    using w1 w' by simp
  moreover have "map reading (entry # entries) = row # rows"
    using w1 w' by simp
  moreover have "\<forall>e \<in> set (entry # entries). 0 \<le> probability e \<and> probability e \<le> 1 \<and>
         (prediction e = 0 \<or> prediction e = 1)"
    using entry w'(3) by simp
  moreover have "ticks w' = ticks w + length (row # rows)"
    using w1 w' by simp
  ultimately show ?case
    using w1 w' by (intro exI [of _ w'] exI [of _ "entry # entries"]) simp
qed


section \<open>Writing the log\<close>

lemma map_of_store: "map_of (store p v fs) = (map_of fs)(p \<mapsto> v)"
  by (induction fs) auto

lemma save_log_written:
  assumes "length (log_data w) \<le> free_rows w"
  shows "\<exists>w'. save_log clock v w = Inr w' \<and>
           read_file (log_path v (clock (ticks w))) w' = Some (log_data w) \<and>
           (\<forall>q. q \<noteq> log_path v (clock (ticks w)) \<longrightarrow> read_file q w' = read_file q w) \<and>
           log_data w' = log_data w \<and> running w' = running w"
  using assms
  by (simp add: save_log_def to_csv_def makedirs_def read_file_def map_of_store Let_def)

lemma save_log_partial:
  assumes "free_rows w < length (log_data w)"
  shows "\<exists>w'. save_log clock v w = Inl (OSError, w') \<and>
           read_file (log_path v (clock (ticks w))) w' =
             Some (take (free_rows w) (log_data w)) \<and>
           (\<forall>q. q \<noteq> log_path v (clock (ticks w)) \<longrightarrow> read_file q w' = read_file q w) \<and>
           log_data w' = log_data w \<and> running w' = running w"
  using assms
  by (simp add: save_log_def to_csv_def makedirs_def read_file_def map_of_store Let_def)

section \<open>Formatting of the time stamp\<close>

lemma of_char_digit: "of_char (digit d) = (48 + d mod 10 :: nat)"
proof -
  define r where "r = d mod 10"
  have "r < 10" by (simp add: r_def)
  then have "r = 0 \<or> r = 1 \<or> r = 2 \<or> r = 3 \<or> r = 4 \<or> r = 5 \<or> r = 6 \<or> r = 7 \<or> r = 8 \<or> r = 9"
    by arith
  then have "of_char (''0123456789'' ! r) = (48 + r :: nat)"
    by (elim disjE) simp_all
  then show ?thesis
    by (simp add: digit_def r_def)
qed

lemma digit_less_iff: "digit a < digit b \<longleftrightarrow> a mod 10 < b mod 10"
  by (simp add: less_char_def of_char_digit)

lemma digit_eq_iff: "digit a = digit b \<longleftrightarrow> a mod 10 = b mod 10"
proof
  assume "digit a = digit b"
  then have "(of_char (digit a) :: nat) = of_char (digit b)" by simp
  then show "a mod 10 = b mod 10" by (simp add: of_char_digit)
next
  assume "a mod 10 = b mod 10"
  then show "digit a = digit b" by (simp add: digit_def)
qed

lemma digit_not_slash: "digit d \<noteq> CHR ''/''"
proof
  assume "digit d = CHR ''/''"
  then have "(of_char (digit d) :: nat) = of_char CHR ''/''" by simp
  then show False by (simp add: of_char_digit)
qed

lemma length_zero_pad: "length (zero_pad k n) = k"
  by (induction k arbitrary: n) simp_all

lemma append_less_same_length:
  "length xs = length ys \<Longrightarrow> xs @ a < ys @ b \<longleftrightarrow> xs < ys \<or> xs = ys \<and> a < b"
  for xs ys :: "'a::linorder list"
  by (induction xs ys rule: list_induct2) auto

lemma divmod_less:
  "a div 10 < b div 10 \<or> a div 10 = b div 10 \<and> a mod 10 < b mod 10 \<longleftrightarrow> a < b"
  for a b :: nat
proof -
  define qa ra qb rb where "qa = a div 10" and "ra = a mod 10" and "qb = b div 10"
    and "rb = b mod 10"
  have a: "a = 10 * qa + ra" and b: "b = 10 * qb + rb"
    by (simp_all add: qa_def ra_def qb_def rb_def)
  have r: "ra < 10" "rb < 10"
    by (simp_all add: ra_def rb_def)
  have "qa < qb \<or> qa = qb \<and> ra < rb \<longleftrightarrow> 10 * qa + ra < 10 * qb + rb"
    using r by linarith
  then show ?thesis
    unfolding qa_def ra_def qb_def rb_def by simp
qed

lemma div_small: "a < 10 ^ Suc k \<Longrightarrow> a div 10 < 10 ^ k" for a :: nat
  by (simp add: less_mult_imp_div_less mult.commute)

lemma zero_pad_less_iff:
  "a < 10 ^ k \<Longrightarrow> b < 10 ^ k \<Longrightarrow> zero_pad k a < zero_pad k b \<longleftrightarrow> a < b"
proof (induction k arbitrary: a b)
  case 0
  then show ?case by simp
next
  case (Suc k)
  have small: "a div 10 < 10 ^ k" "b div 10 < 10 ^ k"
    using Suc.prems by (simp_all add: div_small)
  have lt: "zero_pad k (a div 10) < zero_pad k (b div 10) \<longleftrightarrow> a div 10 < b div 10"
    using Suc.IH [OF small] .
  have gt: "zero_pad k (b div 10) < zero_pad k (a div 10) \<longleftrightarrow> b div 10 < a div 10"
    using Suc.IH [OF small(2) small(1)] .
  have eq: "zero_pad k (a div 10) = zero_pad k (b div 10) \<longleftrightarrow> a div 10 = b div 10"
  proof
    assume "zero_pad k (a div 10) = zero_pad k (b div 10)"
    then have "\<not> a div 10 < b div 10" and "\<not> b div 10 < a div 10"
      using lt gt by simp_all
    then show "a div 10 = b div 10" by simp
  next
    assume "a div 10 = b div 10"
    then show "zero_pad k (a div 10) = zero_pad k (b div 10)" by simp
  qed
  have "zero_pad (Suc k) a < zero_pad (Suc k) b \<longleftrightarrow>
        zero_pad k (a div 10) < zero_pad k (b div 10) \<or>
        zero_pad k (a div 10) = zero_pad k (b div 10) \<and> [digit a] < [digit b]"
    by (simp only: zero_pad.simps append_less_same_length [OF trans [OF length_zero_pad length_zero_pad [symmetric]]])
  also have "\<dots> \<longleftrightarrow> a div 10 < b div 10 \<or> a div 10 = b div 10 \<and> a mod 10 < b mod 10"
    by (simp only: lt eq Cons_less_Cons digit_less_iff digit_eq_iff not_less_Nil simp_thms)
  also have "\<dots> \<longleftrightarrow> a < b"
    by (rule divmod_less)
  finally show ?case .
qed

lemma zero_pad_eq_iff:
  assumes "a < 10 ^ k" and "b < 10 ^ k"
  shows "zero_pad k a = zero_pad k b \<longleftrightarrow> a = b"
proof
  assume "zero_pad k a = zero_pad k b"
  then have "\<not> a < b" and "\<not> b < a"
    using zero_pad_less_iff [OF assms] zero_pad_less_iff [OF assms(2) assms(1)] by simp_all
  then show "a = b" by simp
next
  assume "a = b"
  then show "zero_pad k a = zero_pad k b" by simp
qed

lemma zero_pad_4_less: "a < 10000 \<Longrightarrow> b < 10000 \<Longrightarrow> zero_pad 4 a < zero_pad 4 b \<longleftrightarrow> a < b"
  using zero_pad_less_iff [of a 4 b] by simp

lemma zero_pad_4_eq: "a < 10000 \<Longrightarrow> b < 10000 \<Longrightarrow> zero_pad 4 a = zero_pad 4 b \<longleftrightarrow> a = b"
  using zero_pad_eq_iff [of a 4 b] by simp

lemma zero_pad_2_less: "a < 100 \<Longrightarrow> b < 100 \<Longrightarrow> zero_pad 2 a < zero_pad 2 b \<longleftrightarrow> a < b"
  using zero_pad_less_iff [of a 2 b] by simp

lemma zero_pad_2_eq: "a < 100 \<Longrightarrow> b < 100 \<Longrightarrow> zero_pad 2 a = zero_pad 2 b \<longleftrightarrow> a = b"
  using zero_pad_eq_iff [of a 2 b] by simp

lemma zero_pad_2: "zero_pad 2 n = [digit (n div 10), digit n]"
proof -
  have two: "(2::nat) = Suc (Suc 0)" by simp
  show ?thesis unfolding two by simp
qed

lemma zero_pad_4:
  "zero_pad 4 n =
     [digit (n div 10 div 10 div 10), digit (n div 10 div 10), digit (n div 10), digit n]"
proof -
  have four: "(4::nat) = Suc (Suc (Suc (Suc 0)))" by simp
  show ?thesis unfolding four by simp
qed

lemma valid_datetime_bounds:
  assumes "valid_datetime t"
  shows "year t < 10000" "month t < 100" "day t < 100" "hour t < 100" "minute t < 100"
    "second t < 100"
  using assms by (simp_all add: valid_datetime_def)

lemma length_strftime: "length (strftime t) = 19"
  by (simp add: strftime_def length_zero_pad)

lemma strftime_less_iff:
  assumes "valid_datetime t" and "valid_datetime u"
  shows "strftime t < strftime u \<longleftrightarrow> stamp t < stamp u"
  using valid_datetime_bounds [OF assms(1)] valid_datetime_bounds [OF assms(2)]
  by (simp add: strftime_def stamp_def append_less_same_length length_zero_pad
      zero_pad_4_less zero_pad_4_eq zero_pad_2_less zero_pad_2_eq)

lemma strftime_eq_iff:
  assumes "valid_datetime t" and "valid_datetime u"
  shows "strftime t = strftime u \<longleftrightarrow> stamp t = stamp u"
  using valid_datetime_bounds [OF assms(1)] valid_datetime_bounds [OF assms(2)]
  by (simp add: strftime_def stamp_def length_zero_pad
      zero_pad_4_eq zero_pad_2_eq)

lemma hd_zero_pad: "zero_pad (Suc k) n \<noteq> [] \<and> hd (zero_pad (Suc k) n) \<noteq> CHR ''/''"
proof (induction k arbitrary: n)
  case 0
  show ?case by (simp add: digit_not_slash)
next
  case (Suc k)
  define xs where "xs = zero_pad (Suc k) (n div 10)"
  have xs: "xs \<noteq> []" "hd xs \<noteq> CHR ''/''"
    using Suc.IH [of "n div 10"] unfolding xs_def by blast+
  have "zero_pad (Suc (Suc k)) n = xs @ [digit n]"
    unfolding xs_def by (rule zero_pad.simps(2))
  then show ?case
    using xs by simp
qed

lemma hd_log_name: "log_name t \<noteq> [] \<and> hd (log_name t) \<noteq> CHR ''/''"
proof -
  have four: "(4::nat) = Suc 3" by simp
  have "zero_pad 4 (year t) \<noteq> [] \<and> hd (zero_pad 4 (year t)) \<noteq> CHR ''/''"
    unfolding four by (rule hd_zero_pad)
  then show ?thesis
    by (simp add: log_name_def strftime_def)
qed

lemma log_path_plain:
  assumes "v \<noteq> []" and "last v \<noteq> CHR ''/''"
  shows "log_path v t = ''logs/'' @ v @ ''/'' @ log_name t"
  using assms hd_log_name [of t]
  by (simp add: log_path_def path_join_def log_folder_def)

lemma vehicle_id_shape:
  assumes "v \<in> set vehicle_ids"
  shows "v \<noteq> []" and "last v \<noteq> CHR ''/''" and "length v = 5"
  using assms by (auto simp: vehicle_ids_def)

lemma log_name_mono:
  assumes "valid_datetime u" and "valid_datetime t" and "stamp u \<le> stamp t"
  shows "log_name u \<le> log_name t"
proof (cases "stamp u = stamp t")
  case True
  then have "strftime u = strftime t"
    using strftime_eq_iff [OF assms(1) assms(2)] by simp
  then show ?thesis by (simp add: log_name_def)
next
  case False
  then have "stamp u < stamp t" using assms(3) by simp
  then have "strftime u < strftime t"
    using strftime_less_iff [OF assms(1) assms(2)] by simp
  then have "strftime u @ ''_log.csv'' < strftime t @ ''_log.csv''"
    by (simp only: append_less_same_length [OF trans [OF length_strftime length_strftime [symmetric]]] simp_thms)
  then show ?thesis by (simp add: log_name_def)
qed

lemma log_name_samples:
  "log_name noon = ''2024-05-17_12-00-00_log.csv''"
  "log_name one_pm = ''2024-05-17_13-00-00_log.csv''"
  by (simp_all add: log_name_def strftime_def noon_def one_pm_def zero_pad_2 zero_pad_4 digit_def)

section \<open>Listing and sorting\<close>

lemma sorted_last_greatest: "sorted xs \<Longrightarrow> x \<in> set xs \<Longrightarrow> x \<le> last xs"
  for xs :: "'a::linorder list"
  by (induction xs) auto

lemma two_logs_listing:
  "listdir (log_folder ''KA-01'') two_logs =
     [''2024-05-17_13-00-00_log.csv'', ''2024-05-17_12-00-00_log.csv'']"
  by (simp add: listdir_def two_logs_def empty_world_def log_folder_def child_name_def
      List.map_filter_def)

section \<open>Order of the rules, and what the loop shows\<close>

lemma get_causes_order:
  "get_causes row =
     (if 1 < Vehicle_Speed row \<and> 100 < Engine_Coolant_Temperature row
      then [tag_overheating] else []) @
     (if 1 < Vehicle_Speed row \<and> Throttle_Position row < 70 \<and>
         Engine_RPM row < Throttle_Position row * factor
      then [tag_stall] else []) @
     (if 1 < Vehicle_Speed row \<and> 220 < Intake_Manifold_Abs_Pressure row
      then [tag_manifold] else []) @
     (if 1 < Vehicle_Speed row \<and>
         (120 < Intake_Air_Temperature row \<or> Intake_Air_Temperature row < - 20)
      then [tag_intake] else []) @
     (if 30 < Acc_Pedal_Pos_D row \<and> Vehicle_Speed row < 5 then [tag_pedal] else [])"
  by (simp add: get_causes_def append_if_def Let_def)

lemma loop_body_shown:
  assumes "loop_body model clock v d row w = Inr w'"
  shows "\<exists>shown. placeholder w' = Some shown \<and>
           (get_causes row \<noteq> [] \<longrightarrow> shown_panel shown = Breakdown_Warning (get_causes row))"
  using assms
  by (auto simp: loop_body_def Let_def split: sum.splits if_splits)

section \<open>Cause rules: properties\<close>

text \<open>
  C1. For every reading whose \<open>Vehicle_Speed\<close> is at most 1 and whose \<open>Acc_Pedal_Pos_D\<close> is
  at most 30, \<open>get_causes\<close> returns the empty list.
\<close>

theorem get_causes_empty:
  assumes "Vehicle_Speed row \<le> 1" and "Acc_Pedal_Pos_D row \<le> 30"
  shows "get_causes row = []"
  using assms by (simp add: get_causes_def append_if_def)

theorem get_causes_empty_witness:
  "Vehicle_Speed idle_reading \<le> 1 \<and> Acc_Pedal_Pos_D idle_reading \<le> 30 \<and>
   get_causes idle_reading = []"
proof -
  have speed: "Vehicle_Speed idle_reading \<le> 1"
    by (simp add: idle_reading_def)
  have pedal: "Acc_Pedal_Pos_D idle_reading \<le> 30"
    by (simp add: idle_reading_def)
  show ?thesis
    using speed pedal get_causes_empty [OF speed pedal] by simp
qed

text \<open>
  C2, as the specification states it, fails: for the reading of the scenario \<open>get_causes\<close>
  does not return the two tags \<open>Overheating\<close> and
  \<open>RPM too low for throttle (possible stall)\<close>; the tags in the code are longer strings.
\<close>

theorem scenario_tags_counterexample:
  "get_causes hot_reading \<noteq> [''Overheating'', ''RPM too low for throttle (possible stall)'']"
  by (simp add: get_causes_def append_if_def hot_reading_def factor_def tag_overheating_def)

text \<open>
  C2, amended. For the reading of the scenario (speed 60, coolant temperature 105, throttle
  position 50, RPM 1000, manifold pressure 200, intake air temperature 30, pedal position D
  0), \<open>get_causes\<close> returns exactly two tags, in this order: the overheating tag
  \<open>Overheating (Coolant Temp > 100 degrees C)\<close> and the stall tag
  \<open>RPM too low for throttle -> possible stall\<close>, as the code spells them; the primary cause
  is the overheating tag.
\<close>

theorem scenario_tags:
  "get_causes hot_reading = [tag_overheating, tag_stall] \<and>
   main_cause (get_causes hot_reading) = tag_overheating"
  by (simp add: get_causes_def append_if_def hot_reading_def factor_def main_cause_def)

section \<open>Runs of the Live Monitoring page\<close>

text \<open>
  C3, as the specification states it, fails: a rerun of the script while the simulation is
  running, with one record already in the buffer, completes over two readings and writes a
  log of three rows.
\<close>

theorem rerun_persists_stale_counterexample:
  "\<not> isl (live_monitoring steady_model second_clock [idle_reading, hot_reading]
            ''KA-01'' ''Rishab'' False stale_world) \<and>
   length (take 15000 [idle_reading, hot_reading]) = 2 \<and>
   map (length \<circ> snd)
     (files (projr (live_monitoring steady_model second_clock [idle_reading, hot_reading]
                      ''KA-01'' ''Rishab'' False stale_world))) = [3]"
  by (simp add: live_monitoring_def monitor_def loop_body_def save_log_def to_csv_def
      makedirs_def steady_model_def features_def idle_reading_def hot_reading_def
      stale_world_def empty_world_def Let_def)

text \<open>
  C3, amended. The loop is entered by pressing Start while the simulation is not running,
  which clears the session buffer, or by a rerun of the script while it is running, which
  keeps the \<open>k\<close> records already buffered. When the classifier answers within its
  interface on each of the \<open>N\<close> readings of \<open>base_df.head(15000)\<close> and the medium has
  room, the run completes: it appends exactly \<open>N\<close> records to the session buffer, one per
  reading and in the order of the readings, every appended record has a probability
  between 0 and 1 and a prediction that is 0 or 1, and the log file written at the end of
  the stream holds the whole buffer: exactly \<open>N\<close> rows after Start, and \<open>k + N\<close> rows
  after a rerun (for an empty buffer no file is written).
\<close>

theorem completed_run_persists_buffer:
  assumes enters: "running w \<noteq> clicked"
    and ok: "\<forall>row \<in> set (take 15000 base_df). classifier_ok model row"
    and space: "length (if running w then log_data w else []) + length (take 15000 base_df)
                  \<le> free_rows w"
  shows "\<exists>w' new. live_monitoring model clock base_df v d clicked w = Inr w' \<and>
           log_data w' = (if running w then log_data w else []) @ new \<and>
           map reading new = take 15000 base_df \<and>
           length new = length (take 15000 base_df) \<and>
           (\<forall>e \<in> set new. 0 \<le> probability e \<and> probability e \<le> 1 \<and>
              (prediction e = 0 \<or> prediction e = 1)) \<and>
           (if log_data w' = [] then files w' = files w
            else read_file (log_path v (clock (ticks w + length (take 15000 base_df)))) w' =
                   Some (log_data w')) \<and>
           \<not> running w'"
proof -
  define df where "df = take 15000 base_df"
  define stale where "stale = (if running w then log_data w else [])"
  define w0 where "w0 = w\<lparr>running := True, log_data := stale, placeholder := None\<rparr>"
  have r0: "running w0" by (simp add: w0_def)
  have ok': "\<forall>row \<in> set df. classifier_ok model row"
    using ok by (simp add: df_def)
  from simulate_appends [OF r0 ok', of clock v d]
  obtain w1 new where sim: "simulate model clock v d df w0 = Inr w1"
    and w1: "log_data w1 = log_data w0 @ new" "map reading new = df"
      "\<forall>e \<in> set new. 0 \<le> probability e \<and> probability e \<le> 1 \<and>
         (prediction e = 0 \<or> prediction e = 1)"
      "running w1" "dirs w1 = dirs w0" "files w1 = files w0" "free_rows w1 = free_rows w0"
      "ticks w1 = ticks w0 + length df"
    by blast
  have buf: "log_data w1 = stale @ new" using w1 by (simp add: w0_def)
  have len: "length new = length df" using w1(2) by (metis length_map)
  have start: "w\<lparr>placeholder := None\<rparr> = w0" if "running w"
    using that by (simp add: w0_def stale_def)
  have run: "live_monitoring model clock base_df v d clicked w =
      (let w2 = w1\<lparr>running := False\<rparr>
       in if log_data w2 \<noteq> [] then save_log clock v w2 else Inr w2)"
  proof (cases "running w")
    case True
    then have "\<not> clicked" using enters by simp
    then show ?thesis
      using True sim w1(4) start [OF True]
      by (simp add: live_monitoring_def monitor_def df_def Let_def)
  next
    case False
    then have "clicked" using enters by simp
    then show ?thesis
      using False sim w1(4)
      by (simp add: live_monitoring_def monitor_def df_def w0_def stale_def Let_def)
  qed
  define w2 where "w2 = w1\<lparr>running := False\<rparr>"
  have w2: "log_data w2 = stale @ new" "files w2 = files w" "\<not> running w2"
    "ticks w2 = ticks w + length df" "free_rows w2 = free_rows w"
    using buf w1 by (simp_all add: w2_def w0_def)
  have goal: "\<exists>w' new. live_monitoring model clock base_df v d clicked w = Inr w' \<and>
           log_data w' = stale @ new \<and> map reading new = df \<and> length new = length df \<and>
           (\<forall>e \<in> set new. 0 \<le> probability e \<and> probability e \<le> 1 \<and>
              (prediction e = 0 \<or> prediction e = 1)) \<and>
           (if log_data w' = [] then files w' = files w
            else read_file (log_path v (clock (ticks w + length df))) w' =
                   Some (log_data w')) \<and>
           \<not> running w'"
  proof (cases "stale @ new = []")
    case True
    then have "live_monitoring model clock base_df v d clicked w = Inr w2"
      using run buf by (simp add: w2_def)
    moreover have "if log_data w2 = [] then files w2 = files w
            else read_file (log_path v (clock (ticks w + length df))) w2 =
                   Some (log_data w2)"
      using True w2(1,2) by simp
    ultimately show ?thesis
      using w2(1,3) w1(2,3) len by blast
  next
    case False
    have nonempty: "log_data w2 \<noteq> []" using False w2(1) by simp
    have "length stale + length df \<le> free_rows w"
      using space by (simp only: df_def stale_def)
    then have fits: "length (log_data w2) \<le> free_rows w2"
      using len w2 by simp
    from save_log_written [OF fits, of clock v]
    obtain w' where saved: "save_log clock v w2 = Inr w'"
      and w': "read_file (log_path v (clock (ticks w2))) w' = Some (log_data w2)"
        "log_data w' = log_data w2" "running w' = running w2"
      by blast
    have "live_monitoring model clock base_df v d clicked w = Inr w'"
      using run nonempty saved by (simp add: w2_def Let_def)
    moreover have "log_data w' = stale @ new"
      using w'(2) w2(1) by simp
    moreover have "\<not> running w'"
      using w'(3) w2(3) by simp
    moreover have "if log_data w' = [] then files w' = files w
            else read_file (log_path v (clock (ticks w + length df))) w' =
                   Some (log_data w')"
      using nonempty w' w2(4) by simp
    ultimately show ?thesis
      using w1(2,3) len by blast
  qed
  then show ?thesis
    unfolding df_def stale_def .
qed

text \<open>
  C3 at two concrete runs over two readings: after Start the log holds two rows; after a
  rerun that found one record in the buffer it holds three.
\<close>

theorem completed_run_persists_buffer_witness:
  "running empty_world \<noteq> True \<and> running stale_world \<noteq> False \<and>
   classifier_ok steady_model idle_reading \<and> classifier_ok steady_model hot_reading \<and>
   (\<exists>w' new. live_monitoring steady_model second_clock [idle_reading, hot_reading]
                ''KA-01'' ''Rishab'' True empty_world = Inr w' \<and>
              log_data w' = new \<and> length new = 2 \<and>
              read_file (log_path ''KA-01'' (second_clock 2)) w' = Some (log_data w')) \<and>
   (\<exists>w' new. live_monitoring steady_model second_clock [idle_reading, hot_reading]
                ''KA-01'' ''Rishab'' False stale_world = Inr w' \<and>
              log_data w' = sample_entry # new \<and> length new = 2 \<and>
              read_file (log_path ''KA-01'' (second_clock 2)) w' = Some (log_data w'))"
proof -
  have start: "running empty_world \<noteq> True" and rerun: "running stale_world \<noteq> False"
    by (simp_all add: empty_world_def stale_world_def)
  have ok: "\<forall>row \<in> set (take 15000 [idle_reading, hot_reading]). classifier_ok steady_model row"
    by (simp add: classifier_ok_def steady_model_def features_def idle_reading_def
        hot_reading_def)
  have space1: "length (if running empty_world then log_data empty_world else []) +
      length (take 15000 [idle_reading, hot_reading]) \<le> free_rows empty_world"
    by (simp add: empty_world_def)
  have space2: "length (if running stale_world then log_data stale_world else []) +
      length (take 15000 [idle_reading, hot_reading]) \<le> free_rows stale_world"
    by (simp add: stale_world_def empty_world_def)
  have n1: "ticks empty_world + length (take 15000 [idle_reading, hot_reading]) = 2"
    and n2: "ticks stale_world + length (take 15000 [idle_reading, hot_reading]) = 2"
    by (simp_all add: empty_world_def stale_world_def)
  have s1: "(if running empty_world then log_data empty_world else []) = []"
    and s2: "(if running stale_world then log_data stale_world else []) = [sample_entry]"
    by (simp_all add: empty_world_def stale_world_def)
  from completed_run_persists_buffer [OF start ok space1, of second_clock "''KA-01''" "''Rishab''"]
  obtain w' new where
    "live_monitoring steady_model second_clock [idle_reading, hot_reading]
       ''KA-01'' ''Rishab'' True empty_world = Inr w'"
    "log_data w' = (if running empty_world then log_data empty_world else []) @ new"
    "length new = length (take 15000 [idle_reading, hot_reading])"
    "if log_data w' = [] then files w' = files empty_world
     else read_file (log_path ''KA-01'' (second_clock (ticks empty_world +
            length (take 15000 [idle_reading, hot_reading])))) w' = Some (log_data w')"
    by blast
  then have first: "\<exists>w' new. live_monitoring steady_model second_clock
       [idle_reading, hot_reading] ''KA-01'' ''Rishab'' True empty_world = Inr w' \<and>
       log_data w' = new \<and> length new = 2 \<and>
       read_file (log_path ''KA-01'' (second_clock 2)) w' = Some (log_data w')"
    unfolding n1 s1 by (intro exI [of _ w'] exI [of _ new]) (auto split: if_splits)
  from completed_run_persists_buffer [OF rerun ok space2, of second_clock "''KA-01''" "''Rishab''"]
  obtain w' new where
    "live_monitoring steady_model second_clock [idle_reading, hot_reading]
       ''KA-01'' ''Rishab'' False stale_world = Inr w'"
    "log_data w' = (if running stale_world then log_data stale_world else []) @ new"
    "length new = length (take 15000 [idle_reading, hot_reading])"
    "if log_data w' = [] then files w' = files stale_world
     else read_file (log_path ''KA-01'' (second_clock (ticks stale_world +
            length (take 15000 [idle_reading, hot_reading])))) w' = Some (log_data w')"
    by blast
  then have second: "\<exists>w' new. live_monitoring steady_model second_clock
       [idle_reading, hot_reading] ''KA-01'' ''Rishab'' False stale_world = Inr w' \<and>
       log_data w' = sample_entry # new \<and> length new = 2 \<and>
       read_file (log_path ''KA-01'' (second_clock 2)) w' = Some (log_data w')"
    unfolding n2 s2 by (intro exI [of _ w'] exI [of _ new]) (auto split: if_splits)
  have "classifier_ok steady_model idle_reading" and "classifier_ok steady_model hot_reading"
    using ok by simp_all
  then show ?thesis
    using start rerun first second by blast
qed




text \<open>
  C7. A Stop pressed with an empty session buffer raises no error and leaves the storage
  as it was: the run returns the same world with only the running flag cleared, so no file
  is written and no directory is created.
\<close>

theorem stop_with_empty_buffer:
  assumes "running w" and "log_data w = []"
  shows "live_monitoring model clock base_df v d True w = Inr (w\<lparr>running := False\<rparr>)"
  using assms by (simp add: live_monitoring_def monitor_def Let_def)

theorem stop_with_empty_buffer_witness:
  "running (empty_world\<lparr>running := True\<rparr>) \<and> log_data (empty_world\<lparr>running := True\<rparr>) = [] \<and>
   live_monitoring steady_model second_clock [idle_reading, hot_reading] ''KA-01'' ''Rishab''
     True (empty_world\<lparr>running := True\<rparr>) = Inr empty_world"
proof -
  have r: "running (empty_world\<lparr>running := True\<rparr>)"
    by simp
  have b: "log_data (empty_world\<lparr>running := True\<rparr>) = []"
    by (simp add: empty_world_def)
  have "empty_world\<lparr>running := True, running := False\<rparr> = empty_world"
    by (simp add: empty_world_def)
  then show ?thesis
    using r b stop_with_empty_buffer [OF r b, of steady_model second_clock
        "[idle_reading, hot_reading]" "''KA-01''" "''Rishab''"]
    by simp
qed

text \<open>
  C10, as the specification states it, fails: when the class-1 probability is the double
  nearest to 0.12345, the product with 10000 is the double 1234.5, \<open>rint\<close> takes it to
  1234, and the stored value, the double nearest to 0.1234, differs from the raw
  probability by more than 0.00005.
\<close>

theorem rounding_bound_counterexample:
  "\<not> isl (loop_body borderline_model second_clock ''KA-01'' ''Rishab'' idle_reading empty_world) \<and>
   probability (last (log_data (projr (loop_body borderline_model second_clock ''KA-01''
       ''Rishab'' idle_reading empty_world)))) = stored_1234 \<and>
   5 / 100000 < \<bar>stored_1234 - raw_12345\<bar>"
proof -
  have "5 / 100000 < \<bar>stored_1234 - raw_12345\<bar>"
    by (simp add: stored_1234_def raw_12345_def)
  then show ?thesis
    by (simp add: loop_body_def borderline_model_def np_round_tie Let_def)
qed

text \<open>
  C10, amended. For every reading that the loop processes, the stored prediction is
  \<open>int\<close> of the label that \<open>predict\<close> returned, that is the label truncated towards
  zero. The stored probability is numpy's \<open>round(prob, 4)\<close> of the class-1 probability
  that \<open>predict_proba\<close> returned: the double nearest to \<open>k / 10000\<close>, where \<open>k\<close> is the
  double product \<open>prob * 10000\<close> rounded to an integer with ties to even. For a raw
  probability between 0 and 1 the stored value differs from it by at most
  \<open>0.00005 + 2 powi - 52\<close>.
\<close>

theorem stored_probability_and_prediction:
  assumes "loop_body model clock v d row w = Inr w'"
  shows "\<exists>pred probs entry.
           predict model (features row) = Inr pred \<and>
           predict_proba model (features row) = Inr probs \<and> 1 < length probs \<and>
           log_data w' = log_data w @ [entry] \<and>
           prediction entry = py_int pred \<and>
           \<bar>of_int (prediction entry)\<bar> \<le> \<bar>pred\<bar> \<and> \<bar>pred - of_int (prediction entry)\<bar> < 1 \<and>
           probability entry = np_round (probs ! 1) 4 \<and>
           (\<exists>k::int. probability entry = fl (of_int k / 10000) \<and>
              \<bar>of_int k - fl (probs ! 1 * 10000)\<bar> \<le> 1 / 2) \<and>
           (0 \<le> probs ! 1 \<and> probs ! 1 \<le> 1 \<longrightarrow>
              \<bar>probability entry - probs ! 1\<bar> \<le> 5 / 100000 + 2 powi (- 52))"
proof -
  from loop_body_entry [OF assms] obtain pred probs
    where p: "predict model (features row) = Inr pred"
      and q: "predict_proba model (features row) = Inr probs" "1 < length probs"
      and buf: "log_data w' = log_data w @
             [\<lparr>reading = row, timestamp = clock (ticks w), vehicle_id = v, driver = d,
               prediction = py_int pred, probability = np_round (probs ! 1) 4,
               breakdown_cause = main_cause (get_causes row)\<rparr>]"
    by blast
  define entry where "entry =
     \<lparr>reading = row, timestamp = clock (ticks w), vehicle_id = v, driver = d,
       prediction = py_int pred, probability = np_round (probs ! 1) 4,
       breakdown_cause = main_cause (get_causes row)\<rparr>"
  have pi: "prediction entry = py_int pred" and pr: "probability entry = np_round (probs ! 1) 4"
    by (simp_all add: entry_def)
  have "\<bar>of_int (prediction entry)\<bar> \<le> \<bar>pred\<bar>" and "\<bar>pred - of_int (prediction entry)\<bar> < 1"
    unfolding pi using py_int_truncates [of pred] by simp_all
  moreover have "\<exists>k::int. probability entry = fl (of_int k / 10000) \<and>
              \<bar>of_int k - fl (probs ! 1 * 10000)\<bar> \<le> 1 / 2"
    unfolding pr by (rule np_round_4_grid)
  moreover have "0 \<le> probs ! 1 \<and> probs ! 1 \<le> 1 \<longrightarrow>
              \<bar>probability entry - probs ! 1\<bar> \<le> 5 / 100000 + 2 powi (- 52)"
    unfolding pr using np_round_4_error [of "probs ! 1"] by blast
  moreover have "log_data w' = log_data w @ [entry]"
    using buf by (simp add: entry_def)
  ultimately show ?thesis
    using p q pi pr by blast
qed

text \<open>
  C10 at a concrete reading: the fractional label 1.5 is stored as the integer 1, and the
  class-1 probability nearest to 0.12345 is stored as the double nearest to 0.1234.
\<close>

theorem stored_probability_and_prediction_witness:
  "\<exists>w' entry.
     loop_body regressor_model second_clock ''KA-01'' ''Rishab'' hot_reading empty_world =
       Inr w' \<and>
     log_data w' = [entry] \<and> prediction entry = 1 \<and> probability entry = stored_1234"
proof -
  have "classifier_raises regressor_model hot_reading = None"
    by (simp add: classifier_raises_def regressor_model_def features_def)
  from loop_body_returns [OF this, of second_clock "''KA-01''" "''Rishab''" empty_world]
  obtain w' where step:
    "loop_body regressor_model second_clock ''KA-01'' ''Rishab'' hot_reading empty_world =
       Inr w'"
    by blast
  have p: "predict regressor_model (features hot_reading) = Inr (3 / 2)"
    by (simp add: regressor_model_def)
  have q: "predict_proba regressor_model (features hot_reading) = Inr [rest_12345, raw_12345]"
    by (simp add: regressor_model_def)
  have i: "py_int (3 / 2) = 1"
    by (simp add: py_int_def)
  have r: "np_round ([rest_12345, raw_12345] ! 1) 4 = stored_1234"
    by (simp add: np_round_tie)
  have start: "log_data empty_world = []"
    by (simp add: empty_world_def)
  from stored_probability_and_prediction [OF step] obtain pred probs entry
    where pred: "predict regressor_model (features hot_reading) = Inr pred"
      and probs: "predict_proba regressor_model (features hot_reading) = Inr probs"
      and buf: "log_data w' = log_data empty_world @ [entry]"
      and stored: "prediction entry = py_int pred" "probability entry = np_round (probs ! 1) 4"
    by blast
  have pv: "pred = 3 / 2" using p pred by simp
  have qv: "probs = [rest_12345, raw_12345]" using q probs by simp
  have "prediction entry = 1"
    using stored(1) i by (simp only: pv)
  moreover have "probability entry = stored_1234"
    using stored(2) r by (simp only: qv)
  moreover have "log_data w' = [entry]" using buf start by simp
  ultimately have "log_data w' = [entry] \<and> prediction entry = 1 \<and>
      probability entry = stored_1234"
    by simp
  with step show ?thesis by blast
qed

text \<open>
  C8. For every reading that the loop processes, the primary cause stored in the record is
  the first tag of \<open>get_causes\<close> for that reading when there is one, and the string
  \<open>None\<close> otherwise. The tags come in the fixed order of the rules (overheating, stall,
  manifold pressure, intake air temperature, pedal), and the selection does not change the
  list: all tags of the reading are shown in the warning panel, in that order.
\<close>

theorem primary_cause_first_tag:
  assumes "loop_body model clock v d row w = Inr w'"
  shows "get_causes row =
           (if 1 < Vehicle_Speed row \<and> 100 < Engine_Coolant_Temperature row
            then [tag_overheating] else []) @
           (if 1 < Vehicle_Speed row \<and> Throttle_Position row < 70 \<and>
               Engine_RPM row < Throttle_Position row * factor
            then [tag_stall] else []) @
           (if 1 < Vehicle_Speed row \<and> 220 < Intake_Manifold_Abs_Pressure row
            then [tag_manifold] else []) @
           (if 1 < Vehicle_Speed row \<and>
               (120 < Intake_Air_Temperature row \<or> Intake_Air_Temperature row < - 20)
            then [tag_intake] else []) @
           (if 30 < Acc_Pedal_Pos_D row \<and> Vehicle_Speed row < 5 then [tag_pedal] else []) \<and>
         (\<exists>entry shown. log_data w' = log_data w @ [entry] \<and>
            breakdown_cause entry =
              (if get_causes row \<noteq> [] then hd (get_causes row) else ''None'') \<and>
            placeholder w' = Some shown \<and>
            (get_causes row \<noteq> [] \<longrightarrow>
               shown_panel shown = Breakdown_Warning (get_causes row)))"
proof (intro conjI)
  show "get_causes row =
           (if 1 < Vehicle_Speed row \<and> 100 < Engine_Coolant_Temperature row
            then [tag_overheating] else []) @
           (if 1 < Vehicle_Speed row \<and> Throttle_Position row < 70 \<and>
               Engine_RPM row < Throttle_Position row * factor
            then [tag_stall] else []) @
           (if 1 < Vehicle_Speed row \<and> 220 < Intake_Manifold_Abs_Pressure row
            then [tag_manifold] else []) @
           (if 1 < Vehicle_Speed row \<and>
               (120 < Intake_Air_Temperature row \<or> Intake_Air_Temperature row < - 20)
            then [tag_intake] else []) @
           (if 30 < Acc_Pedal_Pos_D row \<and> Vehicle_Speed row < 5 then [tag_pedal] else [])"
    by (rule get_causes_order)
next
  from loop_body_entry [OF assms] obtain pred probs
    where buf: "log_data w' = log_data w @
             [\<lparr>reading = row, timestamp = clock (ticks w), vehicle_id = v, driver = d,
               prediction = py_int pred, probability = np_round (probs ! 1) 4,
               breakdown_cause = main_cause (get_causes row)\<rparr>]"
    by blast
  moreover from loop_body_shown [OF assms] obtain shown
    where "placeholder w' = Some shown"
      and "get_causes row \<noteq> [] \<longrightarrow> shown_panel shown = Breakdown_Warning (get_causes row)"
    by blast
  ultimately show "\<exists>entry shown. log_data w' = log_data w @ [entry] \<and>
            breakdown_cause entry =
              (if get_causes row \<noteq> [] then hd (get_causes row) else ''None'') \<and>
            placeholder w' = Some shown \<and>
            (get_causes row \<noteq> [] \<longrightarrow>
               shown_panel shown = Breakdown_Warning (get_causes row))"
    by (simp add: main_cause_def)
qed

theorem primary_cause_first_tag_witness:
  "\<exists>w' entry shown.
     loop_body steady_model second_clock ''KA-01'' ''Rishab'' hot_reading empty_world = Inr w' \<and>
     log_data w' = [entry] \<and> breakdown_cause entry = tag_overheating \<and>
     placeholder w' = Some shown \<and>
     shown_panel shown = Breakdown_Warning [tag_overheating, tag_stall]"
proof -
  have "classifier_raises steady_model hot_reading = None"
    by (simp add: classifier_raises_def steady_model_def features_def)
  from loop_body_returns [OF this, of second_clock "''KA-01''" "''Rishab''" empty_world]
  obtain w' where step:
    "loop_body steady_model second_clock ''KA-01'' ''Rishab'' hot_reading empty_world = Inr w'"
    by blast
  have causes: "get_causes hot_reading = [tag_overheating, tag_stall]"
    by (simp add: get_causes_def append_if_def hot_reading_def factor_def)
  have start: "log_data empty_world = []"
    by (simp add: empty_world_def)
  from primary_cause_first_tag [OF step, THEN conjunct2] causes start
  have "\<exists>entry shown. log_data w' = [entry] \<and> breakdown_cause entry = tag_overheating \<and>
     placeholder w' = Some shown \<and>
     shown_panel shown = Breakdown_Warning [tag_overheating, tag_stall]"
    by simp
  with step show ?thesis by blast
qed

section \<open>Persisting a session\<close>

text \<open>
  C5, as the specification states it, fails: with two buffered records and room for one
  row, the write raises and a log holding only the first record is left at the
  destination path.
\<close>

theorem persist_partial_counterexample:
  "isl (save_log second_clock ''KA-01'' full_disk) \<and>
   read_file (log_path ''KA-01'' (second_clock 0))
     (snd (projl (save_log second_clock ''KA-01'' full_disk))) = Some [sample_entry]"
  by (simp add: save_log_def to_csv_def makedirs_def read_file_def map_of_store
      empty_world_def full_disk_def Let_def)

text \<open>
  C5, amended. Persisting a session writes the log directly at its destination path, with
  no staging. When the rows fit, the write returns and the destination holds exactly the
  buffered records. When they do not, the write raises \<open>OSError\<close> and the destination
  holds the rows written so far, a partially written log. In both cases every other file
  is untouched and the session buffer is kept.
\<close>

theorem persist_writes_in_place:
  "(length (log_data w) \<le> free_rows w \<longrightarrow>
      (\<exists>w'. save_log clock v w = Inr w' \<and>
         read_file (log_path v (clock (ticks w))) w' = Some (log_data w) \<and>
         (\<forall>q. q \<noteq> log_path v (clock (ticks w)) \<longrightarrow> read_file q w' = read_file q w) \<and>
         log_data w' = log_data w)) \<and>
   (free_rows w < length (log_data w) \<longrightarrow>
      (\<exists>w'. save_log clock v w = Inl (OSError, w') \<and>
         read_file (log_path v (clock (ticks w))) w' = Some (take (free_rows w) (log_data w)) \<and>
         (\<forall>q. q \<noteq> log_path v (clock (ticks w)) \<longrightarrow> read_file q w' = read_file q w) \<and>
         log_data w' = log_data w))"
proof (intro conjI impI)
  assume "length (log_data w) \<le> free_rows w"
  from save_log_written [OF this, of clock v]
  show "\<exists>w'. save_log clock v w = Inr w' \<and>
         read_file (log_path v (clock (ticks w))) w' = Some (log_data w) \<and>
         (\<forall>q. q \<noteq> log_path v (clock (ticks w)) \<longrightarrow> read_file q w' = read_file q w) \<and>
         log_data w' = log_data w"
    by blast
next
  assume "free_rows w < length (log_data w)"
  from save_log_partial [OF this, of clock v]
  show "\<exists>w'. save_log clock v w = Inl (OSError, w') \<and>
         read_file (log_path v (clock (ticks w))) w' = Some (take (free_rows w) (log_data w)) \<and>
         (\<forall>q. q \<noteq> log_path v (clock (ticks w)) \<longrightarrow> read_file q w' = read_file q w) \<and>
         log_data w' = log_data w"
    by blast
qed

theorem persist_writes_in_place_witness:
  "(length (log_data roomy_disk) \<le> free_rows roomy_disk \<and>
    (\<exists>w'. save_log second_clock ''KA-01'' roomy_disk = Inr w' \<and>
       read_file (log_path ''KA-01'' (second_clock (ticks roomy_disk))) w' =
         Some [sample_entry, sample_entry])) \<and>
   (free_rows full_disk < length (log_data full_disk) \<and>
    (\<exists>w'. save_log second_clock ''KA-01'' full_disk = Inl (OSError, w') \<and>
       read_file (log_path ''KA-01'' (second_clock (ticks full_disk))) w' =
         Some [sample_entry]))"
proof -
  have fits: "length (log_data roomy_disk) \<le> free_rows roomy_disk"
    by (simp add: roomy_disk_def empty_world_def)
  have over: "free_rows full_disk < length (log_data full_disk)"
    by (simp add: full_disk_def empty_world_def)
  have a: "log_data roomy_disk = [sample_entry, sample_entry]"
    by (simp add: roomy_disk_def)
  have b: "take (free_rows full_disk) (log_data full_disk) = [sample_entry]"
    by (simp add: full_disk_def)
  from persist_writes_in_place [of roomy_disk second_clock "''KA-01''"] fits a
  have first: "\<exists>w'. save_log second_clock ''KA-01'' roomy_disk = Inr w' \<and>
       read_file (log_path ''KA-01'' (second_clock (ticks roomy_disk))) w' =
         Some [sample_entry, sample_entry]"
    by auto
  from persist_writes_in_place [of full_disk second_clock "''KA-01''"] over b
  have second: "\<exists>w'. save_log second_clock ''KA-01'' full_disk = Inl (OSError, w') \<and>
       read_file (log_path ''KA-01'' (second_clock (ticks full_disk))) w' =
         Some [sample_entry]"
    by auto
  show ?thesis
    using fits over first second by blast
qed

text \<open>
  C6, as the specification states it, fails: two persist calls for the same vehicle at two
  different times within the same second generate the same path.
\<close>

theorem log_path_collision_counterexample:
  "noon \<noteq> half_past \<and> log_path ''KA-01'' noon = log_path ''KA-01'' half_past"
  by (simp add: half_past_def noon_def log_path_def log_name_def strftime_def)

text \<open>
  C6, amended. For vehicles of the configured list and valid times with a four-digit year,
  two persist calls generate the same log path exactly when they are for the same vehicle
  and their times agree down to the second; calls that differ in the vehicle or in the
  second of the time never write to the same file.
\<close>

theorem log_path_unique_per_second:
  assumes "v1 \<in> set vehicle_ids" and "v2 \<in> set vehicle_ids"
    and "valid_datetime t1" and "valid_datetime t2"
  shows "log_path v1 t1 = log_path v2 t2 \<longleftrightarrow> v1 = v2 \<and> stamp t1 = stamp t2"
proof -
  have len: "length v1 = length v2"
    using vehicle_id_shape(3) [OF assms(1)] vehicle_id_shape(3) [OF assms(2)] by simp
  have "log_path v1 t1 = log_path v2 t2 \<longleftrightarrow>
        v1 @ ''/'' @ log_name t1 = v2 @ ''/'' @ log_name t2"
    using log_path_plain [OF vehicle_id_shape(1,2) [OF assms(1)], of t1]
      log_path_plain [OF vehicle_id_shape(1,2) [OF assms(2)], of t2]
    by simp
  also have "\<dots> \<longleftrightarrow> v1 = v2 \<and> log_name t1 = log_name t2"
    using len by simp
  also have "\<dots> \<longleftrightarrow> v1 = v2 \<and> stamp t1 = stamp t2"
    using strftime_eq_iff [OF assms(3) assms(4)] by (simp add: log_name_def)
  finally show ?thesis .
qed

theorem log_path_unique_per_second_witness:
  "''KA-01'' \<in> set vehicle_ids \<and> ''KA-02'' \<in> set vehicle_ids \<and>
   valid_datetime noon \<and> valid_datetime one_pm \<and>
   log_path ''KA-01'' noon \<noteq> log_path ''KA-02'' one_pm \<and>
   log_path ''KA-01'' noon \<noteq> log_path ''KA-01'' one_pm"
proof -
  have v1: "''KA-01'' \<in> set vehicle_ids" and v2: "''KA-02'' \<in> set vehicle_ids"
    by (simp_all add: vehicle_ids_def)
  have t1: "valid_datetime noon" and t2: "valid_datetime one_pm"
    by (simp_all add: valid_datetime_def noon_def one_pm_def)
  have "stamp noon \<noteq> stamp one_pm"
    by (simp add: stamp_def noon_def one_pm_def)
  then show ?thesis
    using v1 v2 t1 t2 log_path_unique_per_second [OF v1 v2 t1 t2]
      log_path_unique_per_second [OF v1 v1 t1 t2]
    by simp
qed

section \<open>The log that the dashboard loads\<close>

text \<open>
  C9. When the folder of the selected vehicle exists and lists exactly the logs saved at
  the valid times \<open>ts\<close>, the dashboard loads the log of the greatest of these times: the
  file names start with the zero-padded time stamp, so their lexicographic order is the
  order of the times (to the second), and the first element of the names sorted in reverse
  is the name of the latest log.
\<close>

theorem latest_file_is_newest:
  assumes folder: "path_exists (log_folder v) w"
    and listing: "set (listdir (log_folder v) w) = log_name ` set ts"
    and valid: "\<forall>u \<in> set ts. valid_datetime u"
    and member: "t \<in> set ts"
    and newest: "\<forall>u \<in> set ts. stamp u \<le> stamp t"
  shows "latest_file v w = Inr (log_path v t)"
proof -
  define names where "names = sort (listdir (log_folder v) w)"
  have set_names: "set names = log_name ` set ts"
    using listing by (simp add: names_def)
  have ne: "names \<noteq> []"
    using set_names member by auto
  have top: "log_name t \<in> set names"
    using set_names member by simp
  have "sorted names" by (simp add: names_def)
  from sorted_last_greatest [OF this top] have ge: "log_name t \<le> last names" .
  have "last names \<in> set names" using ne by simp
  then obtain u where u: "u \<in> set ts" "last names = log_name u"
    using set_names by auto
  have "log_name u \<le> log_name t"
    using log_name_mono [of u t] valid newest u(1) member by simp
  with ge u(2) have last: "last names = log_name t" by simp
  have "hd (rev names) = log_name t"
    using last by (simp add: hd_rev)
  then show ?thesis
    using folder ne by (simp add: latest_file_def Let_def names_def [symmetric] log_path_def)
qed

theorem latest_file_is_newest_witness:
  "path_exists (log_folder ''KA-01'') two_logs \<and>
   set (listdir (log_folder ''KA-01'') two_logs) = {log_name noon, log_name one_pm} \<and>
   valid_datetime noon \<and> valid_datetime one_pm \<and> stamp noon \<le> stamp one_pm \<and>
   latest_file ''KA-01'' two_logs = Inr (log_path ''KA-01'' one_pm)"
proof -
  have folder: "path_exists (log_folder ''KA-01'') two_logs"
    by (simp add: path_exists_def log_folder_def two_logs_def empty_world_def)
  have listing: "set (listdir (log_folder ''KA-01'') two_logs) = log_name ` set [noon, one_pm]"
    by (simp only: two_logs_listing log_name_samples list.set image_insert image_empty
        insert_commute)
  have valid: "\<forall>u \<in> set [noon, one_pm]. valid_datetime u"
    by (simp add: valid_datetime_def noon_def one_pm_def)
  have member: "one_pm \<in> set [noon, one_pm]"
    by simp
  have newest: "\<forall>u \<in> set [noon, one_pm]. stamp u \<le> stamp one_pm"
    by (simp add: stamp_def noon_def one_pm_def)
  have "set (listdir (log_folder ''KA-01'') two_logs) = {log_name noon, log_name one_pm}"
    using listing by simp
  moreover have "valid_datetime noon" and "valid_datetime one_pm"
    using valid by simp_all
  moreover have "stamp noon \<le> stamp one_pm"
    using newest by simp
  ultimately show ?thesis
    using folder latest_file_is_newest [OF folder listing valid member newest]
    by blast
qed

end
